theory Spec2Isabelle
  imports Main "HOL-Library.Sublist"
begin

section \<open>Session state and widgets of the chatbot (src/main.py)\<close>

text \<open>
  The application is one Streamlit script, \<open>RAGApp.main\<close>, that is run again from the top
  after every user interaction. One run reads the widgets (buttons, radios, text inputs,
  the file uploader) and the session state, and leaves an updated session state. The model
  is a function from the widget values of one run and the session state before it to the
  session state after it, together with what was displayed, which collaborators were
  invoked, and the exception that ended the run, if any.

  The stage is one of six string literals in the source; no other value is ever assigned.
  A message text is a Python \<open>str\<close> or \<open>None\<close> (the overview is \<open>None\<close> until it has
  been generated, and the overview page appends it as it is), hence \<open>string option\<close>.
\<close>

datatype stage = Initial | Overview | Details | OfferProfile | CollectEmail | Complete

datatype role = User | System

record msg =
  role :: role
  message :: "string option"

record 'c session =
  conversation :: "'c option"
  chat_history :: "(string \<times> string) list"
  processed_pdfs :: bool
  company_overview :: "string option"
  conversation_stage :: stage
  email :: "string option"
  messages :: "msg list"

text \<open>
  The buttons of the page. \<open>st.button\<close> is true in the run its click triggers; the model
  takes the set of buttons reported as clicked in a run, with no assumption that it has at
  most one element. A radio returns one of its two options (the first, \<open>Yes\<close>, when
  untouched); a text input returns a string (empty when untouched); the uploader returns
  the list of uploaded files.
\<close>

datatype button =
  UploadDocuments | CompanyOverview | AskQuestions | GetProfile
  | ProcessPDFs | FullProfile | ConfirmEmail

datatype choice = Yes | No

record 'p widgets =
  clicked :: "button set"
  pdf_docs :: "'p list"
  want_more :: choice
  user_question :: string
  email_option :: choice
  email_input :: string

text \<open>
  Exceptions: a collaborator (PDF loading, embedding, the language model) may raise, and
  calling the conversation chain while it is still \<open>None\<close> raises \<open>TypeError\<close>.
\<close>

datatype exn = TypeError | Raised string

text \<open>
  The collaborators of \<open>PDFProcessor\<close>: \<open>'p\<close> uploaded files, \<open>'k\<close> chunks, \<open>'v\<close> vector
  stores, \<open>'c\<close> conversation chains. \<open>call_chain c q h\<close> is the call
  \<open>c({'question': q, 'chat_history': h})['answer']\<close>.
\<close>

record ('p, 'k, 'v, 'c) processor =
  process_pdf :: "'p \<Rightarrow> exn + 'k list"
  get_vectorstore :: "'k list \<Rightarrow> exn + 'v"
  get_conversation_chain :: "'v \<Rightarrow> exn + 'c"
  call_chain :: "'c \<Rightarrow> string \<Rightarrow> (string \<times> string) list \<Rightarrow> exn + string"

text \<open>
  What a run displays. The decorative prefixes of the source's texts (emoji) are dropped;
  the page headers are named by the stage they belong to.
\<close>

datatype ui =
  Title
  | SidebarHeader
  | SidebarUser "string option"
  | SidebarBot "string option"
  | Header stage
  | Spinner
  | Write "string option"
  | WriteAnswer string
  | Success string
  | ErrorMsg string

datatype event =
  Asked string "(string \<times> string) list"
  | Printed string

record 'c run =
  sess :: "'c session"
  ui :: "ui list"
  trace :: "event list"
  raised :: "exn option"

section \<open>Helpers of one run\<close>

definition emit :: "ui \<Rightarrow> 'c run \<Rightarrow> 'c run" where
  "emit u r = r\<lparr>ui := ui r @ [u]\<rparr>"

definition record_event :: "event \<Rightarrow> 'c run \<Rightarrow> 'c run" where
  "record_event e r = r\<lparr>trace := trace r @ [e]\<rparr>"

definition raise :: "exn \<Rightarrow> 'c run \<Rightarrow> 'c run" where
  "raise e r = r\<lparr>raised := Some e\<rparr>"

definition set_stage :: "stage \<Rightarrow> 'c run \<Rightarrow> 'c run" where
  "set_stage st r = r\<lparr>sess := (sess r)\<lparr>conversation_stage := st\<rparr>\<rparr>"

text \<open>\<open>RAGApp.add_message\<close>: append one entry to \<open>st.session_state.messages\<close>.\<close>

definition add_message :: "role \<Rightarrow> string option \<Rightarrow> 'c run \<Rightarrow> 'c run" where
  "add_message ro m r =
     r\<lparr>sess := (sess r)\<lparr>messages := messages (sess r) @ [\<lparr>role = ro, message = m\<rparr>]\<rparr>\<rparr>"

text \<open>A statement of the script runs only if no exception has ended the run.\<close>

definition unless_raised :: "('c run \<Rightarrow> 'c run) \<Rightarrow> 'c run \<Rightarrow> 'c run" where
  "unless_raised f r = (case raised r of None \<Rightarrow> f r | Some e \<Rightarrow> r)"

section \<open>\<open>RAGApp.init_session_state\<close>\<close>

definition session_defaults :: "'c session" where
  "session_defaults =
     \<lparr>conversation = None, chat_history = [], processed_pdfs = False,
      company_overview = None, conversation_stage = Initial, email = None,
      messages = []\<rparr>"

text \<open>
  All keys are created together by the first run, so the session state of a browser
  session is either absent or has every key.
\<close>

definition init_session_state :: "'c session option \<Rightarrow> 'c session" where
  "init_session_state st = (case st of None \<Rightarrow> session_defaults | Some s \<Rightarrow> s)"

section \<open>\<open>RAGApp.validate_email\<close>: the regular expression\<close>

text \<open>
  The pattern is \<open>^[a-zA-Z0-9._%+-]+@[a-zA-Z0-9.-]+\.[a-zA-Z]{2,}$\<close>, matched with
  \<open>re.match\<close> (at position 0, no flags). It is kept as a value of a small regular
  expression type: a sequence of items, each an anchor, a literal character, or a
  repetition (at least \<open>n\<close> times) of a character class. A class is a list of ranges
  and single characters. The matcher returns every suffix of the input that can remain
  after an item, so it finds a match whenever the backtracking matcher of \<open>re\<close> does.

  Without \<open>re.MULTILINE\<close>, \<open>$\<close> matches at the end of the string and also just before
  a newline that is the last character of the string.
\<close>

datatype cls = Range char char | Single char

datatype item = Bol | Eol | Lit char | Rep nat "cls list"

definition in_cls :: "char \<Rightarrow> cls \<Rightarrow> bool" where
  "in_cls c k = (case k of
       Range lo hi \<Rightarrow> (of_char lo :: nat) \<le> of_char c \<and> (of_char c :: nat) \<le> of_char hi
     | Single x \<Rightarrow> c = x)"

definition in_class :: "cls list \<Rightarrow> char \<Rightarrow> bool" where
  "in_class ks c = list_ex (in_cls c) ks"

definition newline :: char where
  "newline = CHR 0x0A"

fun match_item :: "string \<Rightarrow> item \<Rightarrow> string \<Rightarrow> string list" where
  "match_item whole Bol rest = (if length rest = length whole then [rest] else [])"
| "match_item whole Eol rest = (if rest = [] \<or> rest = [newline] then [rest] else [])"
| "match_item whole (Lit c) rest =
     (case rest of [] \<Rightarrow> [] | x # xs \<Rightarrow> if x = c then [xs] else [])"
| "match_item whole (Rep n ks) rest =
     map (\<lambda>k. drop k rest) [n ..< Suc (length (takeWhile (in_class ks) rest))]"

fun match_items :: "string \<Rightarrow> item list \<Rightarrow> string list \<Rightarrow> string list" where
  "match_items whole [] rests = rests"
| "match_items whole (i # is) rests =
     match_items whole is (concat (map (match_item whole i) rests))"

definition re_match :: "item list \<Rightarrow> string \<Rightarrow> bool" where
  "re_match p s = (match_items s p [s] \<noteq> [])"

definition local_part_class :: "cls list" where
  "local_part_class =
     [Range CHR ''a'' CHR ''z'', Range CHR ''A'' CHR ''Z'', Range CHR ''0'' CHR ''9'',
      Single CHR ''.'', Single CHR ''_'', Single CHR ''%'', Single CHR ''+'', Single CHR ''-'']"

definition domain_class :: "cls list" where
  "domain_class =
     [Range CHR ''a'' CHR ''z'', Range CHR ''A'' CHR ''Z'', Range CHR ''0'' CHR ''9'',
      Single CHR ''.'', Single CHR ''-'']"

definition tld_class :: "cls list" where
  "tld_class = [Range CHR ''a'' CHR ''z'', Range CHR ''A'' CHR ''Z'']"

definition email_regex :: "item list" where
  "email_regex =
     [Bol, Rep 1 local_part_class, Lit CHR ''@'', Rep 1 domain_class, Lit CHR ''.'',
      Rep 2 tld_class, Eol]"

definition validate_email :: "string \<Rightarrow> bool" where
  "validate_email e = re_match email_regex e"

section \<open>\<open>RAGApp.mock_send_email\<close>\<close>

definition mock_send_email :: "string \<Rightarrow> 'c run \<Rightarrow> bool \<times> 'c run" where
  "mock_send_email e r = (True, record_event (Printed (''Sending company profile to '' @ e)) r)"

section \<open>The collaborators as the script calls them\<close>

text \<open>
  The comprehension \<open>[chunk for pdf in pdf_docs for chunk in process_pdf(pdf)]\<close>: the
  chunks of every file in order; the first file that cannot be read ends it.
\<close>

fun all_chunks :: "('p \<Rightarrow> exn + 'k list) \<Rightarrow> 'p list \<Rightarrow> exn + 'k list" where
  "all_chunks f [] = Inr []"
| "all_chunks f (p # ps) =
     (case f p of
        Inl e \<Rightarrow> Inl e
      | Inr ks \<Rightarrow> (case all_chunks f ps of Inl e \<Rightarrow> Inl e | Inr rest \<Rightarrow> Inr (ks @ rest)))"

text \<open>
  Calling \<open>st.session_state.conversation\<close>: a \<open>TypeError\<close> while it is \<open>None\<close>,
  otherwise the chain's answer or the exception it raises. The call is recorded.
\<close>

definition invoke_chain ::
  "('p, 'k, 'v, 'c) processor \<Rightarrow> 'c option \<Rightarrow> string \<Rightarrow> (string \<times> string) list
    \<Rightarrow> 'c run \<Rightarrow> (exn + string) \<times> 'c run" where
  "invoke_chain ad c q h r =
     (case c of
        None \<Rightarrow> (Inl TypeError, r)
      | Some ch \<Rightarrow> (call_chain ad ch q h, record_event (Asked q h) r))"

definition overview_prompt :: string where
  "overview_prompt =
     [newline]
     @ ''        Provide a concise 2-sentence overview of the company based on the uploaded documents. ''
     @ [newline]
     @ ''        Focus on the company''
     @ [CHR 0x27]
     @ ''s core business, main mission, or key distinguishing features.''
     @ [newline]
     @ ''        ''"

text \<open>\<open>PDFProcessor.generate_company_overview\<close>: one question, with an empty history.\<close>

definition generate_company_overview ::
  "('p, 'k, 'v, 'c) processor \<Rightarrow> 'c option \<Rightarrow> 'c run \<Rightarrow> (exn + string) \<times> 'c run" where
  "generate_company_overview ad c r = invoke_chain ad c overview_prompt [] r"

section \<open>\<open>RAGApp.main\<close>, block by block\<close>

text \<open>\<open>display_chat_history\<close> writes the log to the sidebar and changes nothing.\<close>

definition display_chat_history :: "'c run \<Rightarrow> 'c run" where
  "display_chat_history r =
     r\<lparr>ui := ui r @ SidebarHeader #
                map (\<lambda>m. if role m = User then SidebarUser (message m) else SidebarBot (message m))
                    (messages (sess r))\<rparr>"

text \<open>
  The four navigation buttons, on every page. The first is always shown; the other three
  only once documents have been processed.
\<close>

definition navigation :: "'p widgets \<Rightarrow> 'c run \<Rightarrow> 'c run" where
  "navigation w r =
     (let r = (if UploadDocuments \<in> clicked w then set_stage Initial r else r);
          r = (if processed_pdfs (sess r) \<and> CompanyOverview \<in> clicked w
               then set_stage Overview r else r);
          r = (if processed_pdfs (sess r) \<and> AskQuestions \<in> clicked w
               then set_stage Details r else r);
          r = (if processed_pdfs (sess r) \<and> GetProfile \<in> clicked w
               then set_stage OfferProfile r else r)
      in r)"

text \<open>The upload page: lines 123 to 141.\<close>

definition process_pdfs :: "('p, 'k, 'v, 'c) processor \<Rightarrow> 'p widgets \<Rightarrow> 'c run \<Rightarrow> 'c run" where
  "process_pdfs ad w r =
     (let r = emit Spinner r in
      case all_chunks (process_pdf ad) (pdf_docs w) of
        Inl e \<Rightarrow> raise e r
      | Inr chunks \<Rightarrow>
        (case get_vectorstore ad chunks of
           Inl e \<Rightarrow> raise e r
         | Inr vectorstore \<Rightarrow>
           (case get_conversation_chain ad vectorstore of
              Inl e \<Rightarrow> raise e r
            | Inr c \<Rightarrow>
              (let r = r\<lparr>sess := (sess r)\<lparr>conversation := Some c\<rparr>\<rparr>;
                   r = r\<lparr>sess := (sess r)\<lparr>processed_pdfs := True\<rparr>\<rparr>
               in case generate_company_overview ad (conversation (sess r)) r of
                    (Inl e, r) \<Rightarrow> raise e r
                  | (Inr answer, r) \<Rightarrow>
                    (let r = r\<lparr>sess := (sess r)\<lparr>company_overview := Some answer\<rparr>\<rparr>;
                         r = add_message System (Some ''Company documents processed successfully!'') r;
                         r = set_stage Overview r
                     in emit (Success ''PDFs processed successfully!'') r)))))"

definition initial_stage :: "('p, 'k, 'v, 'c) processor \<Rightarrow> 'p widgets \<Rightarrow> 'c run \<Rightarrow> 'c run" where
  "initial_stage ad w r =
     (if conversation_stage (sess r) = Initial then
        (let r = emit (Header Initial) r in
         if ProcessPDFs \<in> clicked w \<and> pdf_docs w \<noteq> [] then process_pdfs ad w r else r)
      else r)"

text \<open>The overview page: lines 144 to 150 show the overview, lines 152 to 156 ask on.\<close>

definition render_overview :: "'c run \<Rightarrow> 'c run" where
  "render_overview r =
     (let r = emit (Header Overview) r;
          r = emit (Write (company_overview (sess r))) r
      in if \<not> list_ex (\<lambda>m. message m = company_overview (sess r)) (messages (sess r))
         then add_message System (company_overview (sess r)) r
         else r)"

definition overview_stage :: "'p widgets \<Rightarrow> 'c run \<Rightarrow> 'c run" where
  "overview_stage w r =
     (if processed_pdfs (sess r) \<and> conversation_stage (sess r) = Overview then
        (let r = render_overview r in
         if want_more w = Yes then
           (let r = add_message User (Some ''Want to know more about the company'') r
            in set_stage Details r)
         else r)
      else r)"

text \<open>The question page: lines 159 to 187.\<close>

definition ask :: "('p, 'k, 'v, 'c) processor \<Rightarrow> string \<Rightarrow> 'c run \<Rightarrow> 'c run" where
  "ask ad question r =
     (let r = add_message User (Some question) r in
      case invoke_chain ad (conversation (sess r)) question (chat_history (sess r)) r of
        (Inl e, r) \<Rightarrow> raise e r
      | (Inr bot_answer, r) \<Rightarrow>
        (let r = add_message System (Some bot_answer) r;
             r = emit (WriteAnswer bot_answer) r
         in r\<lparr>sess := (sess r)\<lparr>chat_history := chat_history (sess r) @ [(question, bot_answer)]\<rparr>\<rparr>))"

definition full_profile_button :: "'p widgets \<Rightarrow> 'c run \<Rightarrow> 'c run" where
  "full_profile_button w r = (if FullProfile \<in> clicked w then set_stage OfferProfile r else r)"

definition details_stage :: "('p, 'k, 'v, 'c) processor \<Rightarrow> 'p widgets \<Rightarrow> 'c run \<Rightarrow> 'c run" where
  "details_stage ad w r =
     (if conversation_stage (sess r) = Details then
        (let r = emit (Header Details) r;
             r = (if user_question w \<noteq> [] then ask ad (user_question w) r else r)
         in unless_raised (full_profile_button w) r)
      else r)"

text \<open>The offer page: lines 190 to 201.\<close>

definition offer_profile_stage :: "'p widgets \<Rightarrow> 'c run \<Rightarrow> 'c run" where
  "offer_profile_stage w r =
     (if conversation_stage (sess r) = OfferProfile then
        (let r = emit (Header OfferProfile) r;
             r = emit (Write (Some ''Would you like us to send the company profile to your email?'')) r
         in if email_option w = Yes then
              (let r = add_message User (Some ''Interested in receiving company profile'') r
               in set_stage CollectEmail r)
            else
              (let r = add_message System (Some ''User declined company profile'') r
               in emit (Write (Some ''Thank you for your interest!'')) r))
      else r)"

text \<open>The email page: lines 204 to 219.\<close>

definition confirm_email :: "string \<Rightarrow> 'c run \<Rightarrow> 'c run" where
  "confirm_email e r =
     (if validate_email e then
        (case mock_send_email e r of (sent, r) \<Rightarrow>
           if sent then
             (let r = add_message User (Some (''Email provided: '' @ e)) r;
                  r = add_message System (Some (''Company profile sent to '' @ e)) r;
                  r = emit (Success (''Company profile sent to '' @ e @ ''!'')) r
              in set_stage Complete r)
           else r)
      else emit (ErrorMsg ''Please enter a valid email address.'') r)"

definition collect_email_stage :: "'p widgets \<Rightarrow> 'c run \<Rightarrow> 'c run" where
  "collect_email_stage w r =
     (if conversation_stage (sess r) = CollectEmail then
        (let r = emit (Header CollectEmail) r in
         if ConfirmEmail \<in> clicked w then confirm_email (email_input w) r else r)
      else r)"

text \<open>The last page: lines 222 to 224.\<close>

definition complete_stage :: "'c run \<Rightarrow> 'c run" where
  "complete_stage r =
     (if conversation_stage (sess r) = Complete then
        (let r = emit (Write (Some ''Thank you for your interest in our company!'')) r
         in add_message System (Some ''Conversation completed'') r)
      else r)"

text \<open>
  One run of the script on the session state \<open>s\<close>. The blocks run in the order of the
  source, each on the stage the blocks before it have left, and an exception ends the run
  with the state as it is at that point.
\<close>

definition start :: "'c session \<Rightarrow> 'c run" where
  "start s = \<lparr>sess = s, ui = [Title], trace = [], raised = None\<rparr>"

definition main :: "('p, 'k, 'v, 'c) processor \<Rightarrow> 'p widgets \<Rightarrow> 'c session \<Rightarrow> 'c run" where
  "main ad w s =
     (let r = start s;
          r = display_chat_history r;
          r = navigation w r;
          r = initial_stage ad w r;
          r = unless_raised (overview_stage w) r;
          r = unless_raised (details_stage ad w) r;
          r = unless_raised (offer_profile_stage w) r;
          r = unless_raised (collect_email_stage w) r
      in unless_raised complete_stage r)"

text \<open>
  A session: the script is run once per interaction, each run on the session state the
  run before it has left (also when that run ended in an exception).
\<close>

definition app ::
  "('p, 'k, 'v, 'c) processor \<Rightarrow> 'p widgets \<Rightarrow> 'c session option \<Rightarrow> 'c run" where
  "app ad w st = main ad w (init_session_state st)"

fun replay ::
  "(('p, 'k, 'v, 'c) processor \<times> 'p widgets) list \<Rightarrow> 'c session \<Rightarrow> 'c session" where
  "replay [] s = s"
| "replay ((ad, w) # rest) s = replay rest (sess (main ad w s))"

section \<open>Runs and inputs used in the statements\<close>

text \<open>A run in which none of the four navigation buttons is reported as clicked.\<close>

definition no_navigation :: "'p widgets \<Rightarrow> bool" where
  "no_navigation w =
     (UploadDocuments \<notin> clicked w \<and> CompanyOverview \<notin> clicked w
      \<and> AskQuestions \<notin> clicked w \<and> GetProfile \<notin> clicked w)"

text \<open>
  The shape of an address in the words of the specification: a non-empty local part of
  \<open>[A-Za-z0-9._%+-]\<close>, an \<open>@\<close>, a non-empty domain of \<open>[A-Za-z0-9.-]\<close>, a dot, and
  a top-level domain of two or more letters.
\<close>

definition email_shape :: "string \<Rightarrow> bool" where
  "email_shape s =
     (\<exists>l d t. s = l @ ''@'' @ d @ ''.'' @ t
        \<and> l \<noteq> [] \<and> list_all (in_class local_part_class) l
        \<and> d \<noteq> [] \<and> list_all (in_class domain_class) d
        \<and> 2 \<le> length t \<and> list_all (in_class tld_class) t)"

text \<open>
  Stubs for concrete runs: a file is its text, its only chunk; the index is the
  concatenated text; the chain answers every question with that text.
\<close>

definition stub_processor :: "(string, string, string, string) processor" where
  "stub_processor =
     \<lparr>process_pdf = (\<lambda>p. Inr [p]), get_vectorstore = (\<lambda>ks. Inr (concat ks)),
      get_conversation_chain = (\<lambda>v. Inr v), call_chain = (\<lambda>c q h. Inr c)\<rparr>"

text \<open>The widgets as a first run finds them: nothing clicked, typed or uploaded.\<close>

definition untouched :: "string widgets" where
  "untouched =
     \<lparr>clicked = {}, pdf_docs = [], want_more = Yes, user_question = [],
      email_option = Yes, email_input = []\<rparr>"

definition at_stage :: "stage \<Rightarrow> string session" where
  "at_stage st = session_defaults\<lparr>conversation_stage := st\<rparr>"

text \<open>A block of the script that leaves the chain, the flag and the overview as they are.\<close>

definition index_kept :: "('c run \<Rightarrow> 'c run) \<Rightarrow> bool" where
  "index_kept f =
     (\<forall>r. company_overview (sess (f r)) = company_overview (sess r)
        \<and> conversation (sess (f r)) = conversation (sess r)
        \<and> processed_pdfs (sess (f r)) = processed_pdfs (sess r))"

text \<open>Three runs of one session: process a file, go back to the upload page, process another.\<close>

definition upload_twice ::
  "((string, string, string, string) processor \<times> string widgets) list" where
  "upload_twice =
     [(stub_processor, untouched\<lparr>clicked := {ProcessPDFs}, pdf_docs := [''Acme'']\<rparr>),
      (stub_processor, untouched\<lparr>clicked := {UploadDocuments}\<rparr>),
      (stub_processor, untouched\<lparr>clicked := {ProcessPDFs}, pdf_docs := [''Bolt'']\<rparr>)]"

section \<open>Unfolding the script\<close>

lemmas run_defs =
  emit_def record_event_def raise_def set_stage_def add_message_def unless_raised_def

lemmas page_defs =
  main_def start_def display_chat_history_def navigation_def initial_stage_def
  overview_stage_def details_stage_def offer_profile_stage_def collect_email_stage_def
  complete_stage_def full_profile_button_def

lemmas regex_defs =
  validate_email_def re_match_def email_regex_def local_part_class_def domain_class_def
  tld_class_def in_class_def in_cls_def newline_def

lemmas stub_defs = stub_processor_def untouched_def at_stage_def session_defaults_def

section \<open>The message log only grows\<close>

lemma grows_navigation: "messages (sess (navigation w r)) = messages (sess r)"
  by (simp add: navigation_def Let_def run_defs)

lemma grows_display: "messages (sess (display_chat_history r)) = messages (sess r)"
  by (simp add: display_chat_history_def)

lemma grows_process_pdfs: "prefix (messages (sess r)) (messages (sess (process_pdfs ad w r)))"
  by (simp add: process_pdfs_def generate_company_overview_def invoke_chain_def Let_def run_defs
           split: sum.splits option.splits prod.splits)

lemma grows_initial: "prefix (messages (sess r)) (messages (sess (initial_stage ad w r)))"
  using grows_process_pdfs [of "emit (Header Initial) r" ad w]
  by (simp add: initial_stage_def Let_def emit_def)

lemma grows_overview: "prefix (messages (sess r)) (messages (sess (overview_stage w r)))"
  by (simp add: overview_stage_def render_overview_def Let_def run_defs)

lemma grows_ask: "prefix (messages (sess r)) (messages (sess (ask ad q r)))"
  by (simp add: ask_def invoke_chain_def Let_def run_defs
           split: sum.splits option.splits prod.splits)

lemma grows_details: "prefix (messages (sess r)) (messages (sess (details_stage ad w r)))"
  using grows_ask [of "emit (Header Details) r" ad "user_question w"]
  by (simp add: details_stage_def full_profile_button_def Let_def run_defs split: option.splits)

lemma grows_offer: "prefix (messages (sess r)) (messages (sess (offer_profile_stage w r)))"
  by (simp add: offer_profile_stage_def Let_def run_defs)

lemma grows_collect: "prefix (messages (sess r)) (messages (sess (collect_email_stage w r)))"
  by (simp add: collect_email_stage_def confirm_email_def mock_send_email_def Let_def run_defs)

lemma grows_complete: "prefix (messages (sess r)) (messages (sess (complete_stage r)))"
  by (simp add: complete_stage_def Let_def run_defs)

lemma grows_unless:
  "(\<And>r. prefix (messages (sess r)) (messages (sess (f r))))
   \<Longrightarrow> prefix (messages (sess r)) (messages (sess (unless_raised f r)))"
  by (simp add: unless_raised_def split: option.splits)

lemma grows_main: "prefix (messages s) (messages (sess (main ad w s)))"
proof -
  define r1 where "r1 = navigation w (display_chat_history (start s))"
  define r2 where "r2 = initial_stage ad w r1"
  define r3 where "r3 = unless_raised (overview_stage w) r2"
  define r4 where "r4 = unless_raised (details_stage ad w) r3"
  define r5 where "r5 = unless_raised (offer_profile_stage w) r4"
  define r6 where "r6 = unless_raised (collect_email_stage w) r5"
  have m: "main ad w s = unless_raised complete_stage r6"
    by (simp add: main_def Let_def r1_def r2_def r3_def r4_def r5_def r6_def)
  have "messages (sess r1) = messages s"
    by (simp add: r1_def grows_navigation grows_display start_def)
  moreover have "prefix (messages (sess r1)) (messages (sess r2))"
    unfolding r2_def by (rule grows_initial)
  moreover have "prefix (messages (sess r2)) (messages (sess r3))"
    unfolding r3_def by (rule grows_unless) (rule grows_overview)
  moreover have "prefix (messages (sess r3)) (messages (sess r4))"
    unfolding r4_def by (rule grows_unless) (rule grows_details)
  moreover have "prefix (messages (sess r4)) (messages (sess r5))"
    unfolding r5_def by (rule grows_unless) (rule grows_offer)
  moreover have "prefix (messages (sess r5)) (messages (sess r6))"
    unfolding r6_def by (rule grows_unless) (rule grows_collect)
  moreover have "prefix (messages (sess r6)) (messages (sess (main ad w s)))"
    unfolding m by (rule grows_unless) (rule grows_complete)
  ultimately show ?thesis
    by (metis prefix_order.trans)
qed

lemma grows_replay: "prefix (messages s) (messages (replay steps s))"
proof (induction steps arbitrary: s)
  case Nil
  show ?case by simp
next
  case (Cons p steps)
  obtain ad w where p: "p = (ad, w)" by (cases p)
  have "prefix (messages s) (messages (sess (main ad w s)))" by (rule grows_main)
  also have "prefix \<dots> (messages (replay steps (sess (main ad w s))))" by (rule Cons.IH)
  finally show ?case by (simp add: p)
qed

text \<open>
  C5. The message log is append-only. Whatever the widgets report, whatever the
  collaborators return or raise, and whatever the session state, the log before a run is
  an initial segment of the log after it: entries are only added at the end, none is
  changed, moved or removed. The same holds across any sequence of runs, each with its own
  collaborators and widgets, so the length of the log never decreases; and
  \<open>add_message\<close> itself appends exactly one entry.
\<close>

theorem message_log_append_only:
  "messages (sess (add_message ro m r)) = messages (sess r) @ [\<lparr>role = ro, message = m\<rparr>]
   \<and> prefix (messages s) (messages (sess (main ad w s)))
   \<and> prefix (messages s) (messages (replay steps s))
   \<and> length (messages s) \<le> length (messages (sess (main ad w s)))
   \<and> length (messages s) \<le> length (messages (replay steps s))"
  using grows_main [of s ad w] grows_replay [of s steps]
  by (simp add: add_message_def prefix_length_le)

section \<open>The question page\<close>

text \<open>
  C8. An empty question is not asked. On the question page an empty text input leaves the
  message log and the exchange history as they are and the chain is not called, whatever
  else the widgets report; and a run on the stage \<open>Details\<close> with an empty question and no
  button clicked leaves the whole session state as it was, calls no collaborator and
  raises nothing.
\<close>

theorem ask_empty_changes_nothing:
  "(user_question w = [] \<longrightarrow>
      messages (sess (details_stage ad w r)) = messages (sess r)
      \<and> chat_history (sess (details_stage ad w r)) = chat_history (sess r)
      \<and> trace (details_stage ad w r) = trace r)
   \<and> (conversation_stage s = Details \<and> clicked w = {} \<and> user_question w = [] \<longrightarrow>
      sess (main ad w s) = s \<and> trace (main ad w s) = [] \<and> raised (main ad w s) = None)"
  by (simp add: page_defs run_defs Let_def split: option.splits)

theorem ask_empty_changes_nothing_witness:
  "user_question untouched = []
   \<and> conversation_stage (at_stage Details) = Details \<and> clicked untouched = {}
   \<and> messages (sess (details_stage stub_processor untouched (start (at_stage Details)))) = []
   \<and> sess (main stub_processor untouched (at_stage Details)) = at_stage Details
   \<and> trace (main stub_processor untouched (at_stage Details)) = []"
  using ask_empty_changes_nothing
    [of untouched stub_processor "start (at_stage Details)" "at_stage Details"]
  by (simp add: stub_defs start_def)

text \<open>
  C7. A non-empty question is asked. On the stage \<open>Details\<close>, with no navigation button and
  not the full-profile button clicked, with the chain present and returning an answer to
  the question and the exchange history as it is before the run: the run appends the
  question as a user message and then the answer as a system message, and nothing else, to
  the log; appends the pair of question and answer to the exchange history; calls the
  chain once, with the question and the history before the run; displays the answer; and
  changes nothing else of the session state.
\<close>

theorem ask_appends_exchange:
  assumes "conversation_stage s = Details"
    and "no_navigation w" and "FullProfile \<notin> clicked w"
    and "user_question w \<noteq> []"
    and "conversation s = Some c"
    and "call_chain ad c (user_question w) (chat_history s) = Inr a"
  shows "sess (main ad w s) =
           s\<lparr>messages := messages s @ [\<lparr>role = User, message = Some (user_question w)\<rparr>,
                                       \<lparr>role = System, message = Some a\<rparr>],
             chat_history := chat_history s @ [(user_question w, a)]\<rparr>
         \<and> trace (main ad w s) = [Asked (user_question w) (chat_history s)]
         \<and> WriteAnswer a \<in> set (ui (main ad w s))
         \<and> raised (main ad w s) = None"
  using assms
  by (simp add: page_defs run_defs Let_def no_navigation_def ask_def invoke_chain_def)

theorem ask_appends_exchange_witness:
  "messages (sess (main stub_processor (untouched\<lparr>user_question := ''What do you sell?''\<rparr>)
                   ((at_stage Details)\<lparr>conversation := Some ''Widgets.''\<rparr>))) =
     [\<lparr>role = User, message = Some ''What do you sell?''\<rparr>,
      \<lparr>role = System, message = Some ''Widgets.''\<rparr>]
   \<and> chat_history (sess (main stub_processor (untouched\<lparr>user_question := ''What do you sell?''\<rparr>)
                   ((at_stage Details)\<lparr>conversation := Some ''Widgets.''\<rparr>))) =
     [(''What do you sell?'', ''Widgets.'')]"
proof -
  let ?w = "untouched\<lparr>user_question := ''What do you sell?''\<rparr>"
  let ?s = "(at_stage Details)\<lparr>conversation := Some ''Widgets.''\<rparr>"
  have "conversation_stage ?s = Details" "no_navigation ?w" "FullProfile \<notin> clicked ?w"
    "user_question ?w \<noteq> []" "conversation ?s = Some ''Widgets.''"
    "call_chain stub_processor ''Widgets.'' (user_question ?w) (chat_history ?s) = Inr ''Widgets.''"
    by (simp_all add: stub_defs no_navigation_def)
  from ask_appends_exchange [OF this] show ?thesis
    by (simp add: stub_defs)
qed

section \<open>The email page\<close>

text \<open>
  C4. An address the validator rejects changes nothing. On the stage \<open>CollectEmail\<close>, with
  the confirm button clicked and no navigation button clicked, an address that
  \<open>validate_email\<close> rejects leaves the whole session state as it was (the stage is still
  \<open>CollectEmail\<close>, the log has no new entry), the error text is displayed, no
  collaborator is called and nothing is raised.
\<close>

theorem submit_invalid_email_changes_nothing:
  assumes "conversation_stage s = CollectEmail"
    and "ConfirmEmail \<in> clicked w" and "no_navigation w"
    and "\<not> validate_email (email_input w)"
  shows "sess (main ad w s) = s
         \<and> ErrorMsg ''Please enter a valid email address.'' \<in> set (ui (main ad w s))
         \<and> trace (main ad w s) = []
         \<and> raised (main ad w s) = None"
  using assms
  by (simp add: page_defs run_defs Let_def no_navigation_def confirm_email_def)

theorem submit_invalid_email_changes_nothing_witness:
  "\<not> validate_email ''bad-email''
   \<and> sess (main stub_processor (untouched\<lparr>clicked := {ConfirmEmail}, email_input := ''bad-email''\<rparr>)
             (at_stage CollectEmail)) = at_stage CollectEmail
   \<and> ErrorMsg ''Please enter a valid email address.''
       \<in> set (ui (main stub_processor
                    (untouched\<lparr>clicked := {ConfirmEmail}, email_input := ''bad-email''\<rparr>)
                    (at_stage CollectEmail)))"
proof -
  let ?w = "untouched\<lparr>clicked := {ConfirmEmail}, email_input := ''bad-email''\<rparr>"
  have v: "\<not> validate_email ''bad-email''"
    by (simp add: regex_defs)
  have "conversation_stage (at_stage CollectEmail) = CollectEmail" "ConfirmEmail \<in> clicked ?w"
    "no_navigation ?w" "\<not> validate_email (email_input ?w)"
    using v by (simp_all add: stub_defs no_navigation_def)
  from submit_invalid_email_changes_nothing [OF this, of stub_processor] v show ?thesis
    by simp
qed

text \<open>
  C10. The delivery stub never fails. \<open>mock_send_email\<close> returns \<open>True\<close> for every address
  (after printing one line), so on the stage \<open>CollectEmail\<close>, with the confirm button
  clicked and no navigation button clicked, every address the validator accepts takes the
  run to the stage \<open>Complete\<close>, without an exception.
\<close>

theorem valid_email_reaches_complete:
  "fst (mock_send_email e r)
   \<and> snd (mock_send_email e r) = record_event (Printed (''Sending company profile to '' @ e)) r
   \<and> (conversation_stage s = CollectEmail \<and> ConfirmEmail \<in> clicked w \<and> no_navigation w
        \<and> validate_email (email_input w)
      \<longrightarrow> conversation_stage (sess (main ad w s)) = Complete
          \<and> raised (main ad w s) = None
          \<and> trace (main ad w s) = [Printed (''Sending company profile to '' @ email_input w)])"
  by (simp add: page_defs run_defs Let_def no_navigation_def confirm_email_def
                mock_send_email_def)

theorem valid_email_reaches_complete_witness:
  "validate_email ''a.b+c@sub.domain.io''
   \<and> conversation_stage
       (sess (main stub_processor
                (untouched\<lparr>clicked := {ConfirmEmail}, email_input := ''a.b+c@sub.domain.io''\<rparr>)
                (at_stage CollectEmail))) = Complete"
proof -
  let ?w = "untouched\<lparr>clicked := {ConfirmEmail}, email_input := ''a.b+c@sub.domain.io''\<rparr>"
  have v: "validate_email ''a.b+c@sub.domain.io''"
    by (simp add: regex_defs)
  have "conversation_stage (at_stage CollectEmail) = CollectEmail \<and> ConfirmEmail \<in> clicked ?w
        \<and> no_navigation ?w \<and> validate_email (email_input ?w)"
    using v by (simp add: stub_defs no_navigation_def)
  with valid_email_reaches_complete [of _ _ "at_stage CollectEmail" ?w stub_processor] v
  show ?thesis
    by blast
qed

section \<open>The overview page\<close>

text \<open>
  C6. The overview is appended to the log only if no entry of the log has exactly its
  text. Showing the overview (lines 144 to 150) leaves the log as it is when some entry
  has the text of the overview, and appends the overview as one system message
  otherwise. So showing it twice appends it at most once: the second time changes nothing
  in the log, and nor does any later time for which the overview is the same and the log
  extends the log left by the first.
\<close>

theorem overview_append_idempotent:
  "messages (sess (render_overview r)) =
     (if \<exists>m \<in> set (messages (sess r)). message m = company_overview (sess r)
      then messages (sess r)
      else messages (sess r) @ [\<lparr>role = System, message = company_overview (sess r)\<rparr>])
   \<and> messages (sess (render_overview (render_overview r))) = messages (sess (render_overview r))
   \<and> (prefix (messages (sess (render_overview r))) (messages (sess r'))
        \<and> company_overview (sess r') = company_overview (sess r)
      \<longrightarrow> messages (sess (render_overview r')) = messages (sess r'))"
  by (auto simp add: render_overview_def run_defs Let_def list_ex_iff prefix_def)

theorem overview_append_idempotent_witness:
  "messages (sess (render_overview
      (start ((at_stage Overview)\<lparr>company_overview := Some ''Acme Corp sells widgets.''\<rparr>)))) =
     [\<lparr>role = System, message = Some ''Acme Corp sells widgets.''\<rparr>]
   \<and> messages (sess (render_overview (render_overview
      (start ((at_stage Overview)\<lparr>company_overview := Some ''Acme Corp sells widgets.''\<rparr>))))) =
     [\<lparr>role = System, message = Some ''Acme Corp sells widgets.''\<rparr>]"
proof -
  let ?r = "start ((at_stage Overview)\<lparr>company_overview := Some ''Acme Corp sells widgets.''\<rparr>)"
  have "messages (sess ?r) = []" "company_overview (sess ?r) = Some ''Acme Corp sells widgets.''"
    by (simp_all add: start_def stub_defs)
  with overview_append_idempotent [of ?r ?r] show ?thesis
    by simp
qed

section \<open>The last page and the navigation buttons\<close>

text \<open>
  On the stage \<open>Complete\<close>, a run in which no navigation button takes effect appends the
  closing message once more, whatever the log already holds.
\<close>

lemma complete_page_appends_again:
  assumes "conversation_stage s = Complete" "UploadDocuments \<notin> clicked w"
    and "processed_pdfs s \<longrightarrow>
           CompanyOverview \<notin> clicked w \<and> AskQuestions \<notin> clicked w \<and> GetProfile \<notin> clicked w"
  shows "messages (sess (main ad w s)) =
           messages s @ [\<lparr>role = System, message = Some ''Conversation completed''\<rparr>]"
proof (cases "processed_pdfs s")
  case True
  with assms show ?thesis by (simp add: page_defs run_defs Let_def)
next
  case False
  with assms show ?thesis by (simp add: page_defs run_defs Let_def)
qed

text \<open>
  C1, as the claim states it, fails twice. The navigation buttons are shown on every page,
  and on the stage \<open>Complete\<close> a click on the upload button takes the session back to
  \<open>Initial\<close>. And the closing message is not final: after the run that enters
  \<open>Complete\<close> by confirming \<open>user@example.com\<close>, a second run with nothing clicked
  appends \<open>Conversation completed\<close> again, so that the log holds it twice.
\<close>

theorem complete_left_by_upload_button:
  "conversation_stage (at_stage Complete) = Complete
   \<and> conversation_stage
       (sess (main stub_processor (untouched\<lparr>clicked := {UploadDocuments}\<rparr>) (at_stage Complete)))
      = Initial
   \<and> messages
       (replay [(stub_processor,
                 untouched\<lparr>clicked := {ConfirmEmail}, email_input := ''user@example.com''\<rparr>),
                (stub_processor, untouched)]
               (at_stage CollectEmail)) =
       [\<lparr>role = User, message = Some ''Email provided: user@example.com''\<rparr>,
        \<lparr>role = System, message = Some ''Company profile sent to user@example.com''\<rparr>,
        \<lparr>role = System, message = Some ''Conversation completed''\<rparr>,
        \<lparr>role = System, message = Some ''Conversation completed''\<rparr>]"
proof -
  have v: "validate_email ''user@example.com''"
    by (simp add: regex_defs)
  have a: "conversation_stage
       (sess (main stub_processor (untouched\<lparr>clicked := {UploadDocuments}\<rparr>) (at_stage Complete)))
      = Initial"
    by (simp add: page_defs run_defs Let_def stub_defs)
  have b: "sess (main stub_processor
             (untouched\<lparr>clicked := {ConfirmEmail}, email_input := ''user@example.com''\<rparr>)
             (at_stage CollectEmail)) =
       (at_stage CollectEmail)
         \<lparr>conversation_stage := Complete,
          messages :=
            [\<lparr>role = User, message = Some ''Email provided: user@example.com''\<rparr>,
             \<lparr>role = System, message = Some ''Company profile sent to user@example.com''\<rparr>,
             \<lparr>role = System, message = Some ''Conversation completed''\<rparr>]\<rparr>"
    using v
    by (simp add: page_defs run_defs Let_def stub_defs confirm_email_def mock_send_email_def)
  have c: "messages (sess (main stub_processor untouched
       ((at_stage CollectEmail)
         \<lparr>conversation_stage := Complete,
          messages :=
            [\<lparr>role = User, message = Some ''Email provided: user@example.com''\<rparr>,
             \<lparr>role = System, message = Some ''Company profile sent to user@example.com''\<rparr>,
             \<lparr>role = System, message = Some ''Conversation completed''\<rparr>]\<rparr>))) =
       [\<lparr>role = User, message = Some ''Email provided: user@example.com''\<rparr>,
        \<lparr>role = System, message = Some ''Company profile sent to user@example.com''\<rparr>,
        \<lparr>role = System, message = Some ''Conversation completed''\<rparr>,
        \<lparr>role = System, message = Some ''Conversation completed''\<rparr>]"
    by (simp add: page_defs run_defs Let_def stub_defs)
  have d: "conversation_stage (at_stage Complete) = Complete"
    by (simp add: stub_defs)
  from a d show ?thesis
    by (simp add: b c)
qed

text \<open>
  C1, amended. On the stage \<open>Complete\<close> a run in which no navigation button takes effect
  (the upload button is not clicked and, once documents have been processed, none of the
  other three is) leaves the stage at \<open>Complete\<close>, whatever else the widgets report. On the
  stage \<open>Complete\<close> a run in which the upload button is the only button clicked leaves the
  stage at \<open>Initial\<close>. And the run that enters \<open>Complete\<close>, from \<open>CollectEmail\<close> with an
  accepted address confirmed and no navigation button clicked, appends to the log the two
  messages about the address and then exactly one system message
  \<open>Conversation completed\<close>, the last entry of the log after that run.
\<close>

theorem complete_stays_without_navigation:
  "(conversation_stage s = Complete \<and> UploadDocuments \<notin> clicked w
      \<and> (processed_pdfs s \<longrightarrow>
            CompanyOverview \<notin> clicked w \<and> AskQuestions \<notin> clicked w \<and> GetProfile \<notin> clicked w)
    \<longrightarrow> conversation_stage (sess (main ad w s)) = Complete)
   \<and> (conversation_stage s = Complete \<and> clicked w = {UploadDocuments}
      \<longrightarrow> conversation_stage (sess (main ad w s)) = Initial)
   \<and> (conversation_stage s = CollectEmail \<and> ConfirmEmail \<in> clicked w \<and> no_navigation w
        \<and> validate_email (email_input w)
      \<longrightarrow> conversation_stage (sess (main ad w s)) = Complete
          \<and> messages (sess (main ad w s)) =
              messages s @ [\<lparr>role = User, message = Some (''Email provided: '' @ email_input w)\<rparr>,
                            \<lparr>role = System,
                             message = Some (''Company profile sent to '' @ email_input w)\<rparr>,
                            \<lparr>role = System, message = Some ''Conversation completed''\<rparr>])"
proof (intro conjI impI)
  assume a: "conversation_stage s = Complete \<and> UploadDocuments \<notin> clicked w
      \<and> (processed_pdfs s \<longrightarrow>
            CompanyOverview \<notin> clicked w \<and> AskQuestions \<notin> clicked w \<and> GetProfile \<notin> clicked w)"
  show "conversation_stage (sess (main ad w s)) = Complete"
  proof (cases "processed_pdfs s")
    case True
    with a show ?thesis by (simp add: page_defs run_defs Let_def)
  next
    case False
    with a show ?thesis by (simp add: page_defs run_defs Let_def)
  qed
next
  assume a: "conversation_stage s = Complete \<and> clicked w = {UploadDocuments}"
  show "conversation_stage (sess (main ad w s)) = Initial"
  proof (cases "processed_pdfs s")
    case True
    with a show ?thesis by (simp add: page_defs run_defs Let_def)
  next
    case False
    with a show ?thesis by (simp add: page_defs run_defs Let_def)
  qed
next
  assume a: "conversation_stage s = CollectEmail \<and> ConfirmEmail \<in> clicked w \<and> no_navigation w
        \<and> validate_email (email_input w)"
  then show "conversation_stage (sess (main ad w s)) = Complete"
    by (simp add: page_defs run_defs Let_def no_navigation_def confirm_email_def
                  mock_send_email_def)
  from a show "messages (sess (main ad w s)) =
              messages s @ [\<lparr>role = User, message = Some (''Email provided: '' @ email_input w)\<rparr>,
                            \<lparr>role = System,
                             message = Some (''Company profile sent to '' @ email_input w)\<rparr>,
                            \<lparr>role = System, message = Some ''Conversation completed''\<rparr>]"
    by (simp add: page_defs run_defs Let_def no_navigation_def confirm_email_def
                  mock_send_email_def)
qed

theorem complete_stays_without_navigation_witness:
  "conversation_stage (sess (main stub_processor (untouched\<lparr>clicked := {ConfirmEmail}\<rparr>)
                                 (at_stage Complete))) = Complete
   \<and> conversation_stage (sess (main stub_processor (untouched\<lparr>clicked := {UploadDocuments}\<rparr>)
                                 (at_stage Complete))) = Initial
   \<and> validate_email ''user@example.com''
   \<and> messages (sess (main stub_processor
                (untouched\<lparr>clicked := {ConfirmEmail}, email_input := ''user@example.com''\<rparr>)
                (at_stage CollectEmail))) =
       [\<lparr>role = User, message = Some ''Email provided: user@example.com''\<rparr>,
        \<lparr>role = System, message = Some ''Company profile sent to user@example.com''\<rparr>,
        \<lparr>role = System, message = Some ''Conversation completed''\<rparr>]"
proof -
  let ?w1 = "untouched\<lparr>clicked := {ConfirmEmail}\<rparr>"
  let ?w2 = "untouched\<lparr>clicked := {ConfirmEmail}, email_input := ''user@example.com''\<rparr>"
  let ?w3 = "untouched\<lparr>clicked := {UploadDocuments}\<rparr>"
  have v: "validate_email ''user@example.com''"
    by (simp add: regex_defs)
  have h1: "conversation_stage (at_stage Complete) = Complete \<and> UploadDocuments \<notin> clicked ?w1
      \<and> (processed_pdfs (at_stage Complete) \<longrightarrow>
            CompanyOverview \<notin> clicked ?w1 \<and> AskQuestions \<notin> clicked ?w1 \<and> GetProfile \<notin> clicked ?w1)"
    by (simp add: stub_defs)
  have h2: "conversation_stage (at_stage CollectEmail) = CollectEmail \<and> ConfirmEmail \<in> clicked ?w2
      \<and> no_navigation ?w2 \<and> validate_email (email_input ?w2)"
    using v by (simp add: stub_defs no_navigation_def)
  have h3: "conversation_stage (at_stage Complete) = Complete \<and> clicked ?w3 = {UploadDocuments}"
    by (simp add: stub_defs)
  have m: "messages (at_stage CollectEmail) = []" "email_input ?w2 = ''user@example.com''"
    by (simp_all add: stub_defs)
  from complete_stays_without_navigation [of "at_stage Complete" ?w1 stub_processor] h1
  have c1: "conversation_stage (sess (main stub_processor ?w1 (at_stage Complete))) = Complete"
    by blast
  from complete_stays_without_navigation [of "at_stage Complete" ?w3 stub_processor] h3
  have c3: "conversation_stage (sess (main stub_processor ?w3 (at_stage Complete))) = Initial"
    by blast
  from complete_stays_without_navigation [of "at_stage CollectEmail" ?w2 stub_processor] h2
  have "messages (sess (main stub_processor ?w2 (at_stage CollectEmail))) =
     messages (at_stage CollectEmail) @
       [\<lparr>role = User, message = Some (''Email provided: '' @ email_input ?w2)\<rparr>,
        \<lparr>role = System, message = Some (''Company profile sent to '' @ email_input ?w2)\<rparr>,
        \<lparr>role = System, message = Some ''Conversation completed''\<rparr>]"
    by blast
  then have c2: "messages (sess (main stub_processor ?w2 (at_stage CollectEmail))) =
       [\<lparr>role = User, message = Some ''Email provided: user@example.com''\<rparr>,
        \<lparr>role = System, message = Some ''Company profile sent to user@example.com''\<rparr>,
        \<lparr>role = System, message = Some ''Conversation completed''\<rparr>]"
    by (simp add: m)
  from c1 c3 v c2 show ?thesis by blast
qed

section \<open>The address is not kept\<close>

lemma email_kept_process_pdfs: "email (sess (process_pdfs ad w r)) = email (sess r)"
  by (simp add: process_pdfs_def generate_company_overview_def invoke_chain_def Let_def run_defs
           split: sum.splits option.splits prod.splits)

lemma email_kept_initial: "email (sess (initial_stage ad w r)) = email (sess r)"
  by (simp add: initial_stage_def Let_def email_kept_process_pdfs emit_def)

lemma email_kept_overview: "email (sess (overview_stage w r)) = email (sess r)"
  by (simp add: overview_stage_def render_overview_def Let_def run_defs)

lemma email_kept_ask: "email (sess (ask ad q r)) = email (sess r)"
  by (simp add: ask_def invoke_chain_def Let_def run_defs
           split: sum.splits option.splits prod.splits)

lemma email_kept_details: "email (sess (details_stage ad w r)) = email (sess r)"
  by (simp add: details_stage_def full_profile_button_def Let_def email_kept_ask run_defs
           split: option.splits)

lemma email_kept_offer: "email (sess (offer_profile_stage w r)) = email (sess r)"
  by (simp add: offer_profile_stage_def Let_def run_defs)

lemma email_kept_collect: "email (sess (collect_email_stage w r)) = email (sess r)"
  by (simp add: collect_email_stage_def confirm_email_def mock_send_email_def Let_def run_defs)

lemma email_kept_complete: "email (sess (complete_stage r)) = email (sess r)"
  by (simp add: complete_stage_def Let_def run_defs)

lemma email_kept_unless:
  "(\<And>r. email (sess (f r)) = email (sess r)) \<Longrightarrow> email (sess (unless_raised f r)) = email (sess r)"
  by (simp add: unless_raised_def split: option.splits)

text \<open>No run assigns the session key \<open>email\<close>: it keeps the value it has.\<close>

lemma email_never_assigned: "email (sess (main ad w s)) = email s"
proof -
  have "email (sess (navigation w (display_chat_history (start s)))) = email s"
    by (simp add: navigation_def display_chat_history_def start_def Let_def run_defs)
  then show ?thesis
    by (simp add: main_def Let_def email_kept_unless email_kept_initial email_kept_overview
                  email_kept_details email_kept_offer email_kept_collect email_kept_complete)
qed

text \<open>
  C2, at an accepted address. In a fresh session on the stage \<open>CollectEmail\<close>, confirming
  \<open>user@example.com\<close> appends the two messages about the address (and the closing
  message) and leaves the stage at \<open>Complete\<close>, but the session key \<open>email\<close> is still
  \<open>None\<close>: the script declares the key among the session defaults and never assigns it.
\<close>

theorem submit_email_leaves_email_unset:
  "validate_email ''user@example.com''
   \<and> sess (main stub_processor
             (untouched\<lparr>clicked := {ConfirmEmail}, email_input := ''user@example.com''\<rparr>)
             (at_stage CollectEmail)) =
       (at_stage CollectEmail)
         \<lparr>conversation_stage := Complete,
          messages :=
            [\<lparr>role = User, message = Some ''Email provided: user@example.com''\<rparr>,
             \<lparr>role = System, message = Some ''Company profile sent to user@example.com''\<rparr>,
             \<lparr>role = System, message = Some ''Conversation completed''\<rparr>]\<rparr>
   \<and> email (sess (main stub_processor
             (untouched\<lparr>clicked := {ConfirmEmail}, email_input := ''user@example.com''\<rparr>)
             (at_stage CollectEmail))) = None"
proof -
  have v: "validate_email ''user@example.com''"
    by (simp add: regex_defs)
  show ?thesis using v
    by (simp add: page_defs run_defs Let_def stub_defs confirm_email_def mock_send_email_def)
qed

section \<open>When the overview is assigned\<close>

lemma kept_unless: "index_kept f \<Longrightarrow> index_kept (unless_raised f)"
  by (simp add: index_kept_def unless_raised_def split: option.splits)

lemma kept_overview: "index_kept (overview_stage w)"
  by (simp add: index_kept_def overview_stage_def render_overview_def Let_def run_defs)

lemma kept_ask: "index_kept (ask ad q)"
  by (simp add: index_kept_def ask_def invoke_chain_def Let_def run_defs
           split: sum.splits option.splits prod.splits)

lemma kept_details: "index_kept (details_stage ad w)"
  using kept_ask [of ad "user_question w"]
  by (simp add: index_kept_def details_stage_def full_profile_button_def Let_def run_defs
           split: option.splits)

lemma kept_offer: "index_kept (offer_profile_stage w)"
  by (simp add: index_kept_def offer_profile_stage_def Let_def run_defs)

lemma kept_collect: "index_kept (collect_email_stage w)"
  by (simp add: index_kept_def collect_email_stage_def confirm_email_def mock_send_email_def
                Let_def run_defs)

lemma kept_complete: "index_kept complete_stage"
  by (simp add: index_kept_def complete_stage_def Let_def run_defs)

lemma kept_after_upload:
  "company_overview (sess (main ad w s)) =
     company_overview (sess (initial_stage ad w (navigation w (display_chat_history (start s)))))
   \<and> conversation (sess (main ad w s)) =
     conversation (sess (initial_stage ad w (navigation w (display_chat_history (start s)))))
   \<and> processed_pdfs (sess (main ad w s)) =
     processed_pdfs (sess (initial_stage ad w (navigation w (display_chat_history (start s)))))"
proof -
  note k = kept_unless [OF kept_overview, of w, unfolded index_kept_def, rule_format]
    kept_unless [OF kept_details, of ad w, unfolded index_kept_def, rule_format]
    kept_unless [OF kept_offer, of w, unfolded index_kept_def, rule_format]
    kept_unless [OF kept_collect, of w, unfolded index_kept_def, rule_format]
    kept_unless [OF kept_complete, unfolded index_kept_def, rule_format]
  show ?thesis
    by (simp add: main_def Let_def k)
qed

lemma overview_before_upload:
  "company_overview (sess (navigation w (display_chat_history (start s)))) = company_overview s"
  by (simp add: navigation_def display_chat_history_def start_def Let_def run_defs)

lemma process_pdfs_overview:
  "company_overview (sess (process_pdfs ad w r)) = company_overview (sess r)
   \<or> (\<exists>chunks v c a.
        all_chunks (process_pdf ad) (pdf_docs w) = Inr chunks
        \<and> get_vectorstore ad chunks = Inr v
        \<and> get_conversation_chain ad v = Inr c
        \<and> call_chain ad c overview_prompt [] = Inr a
        \<and> company_overview (sess (process_pdfs ad w r)) = Some a
        \<and> conversation (sess (process_pdfs ad w r)) = Some c
        \<and> processed_pdfs (sess (process_pdfs ad w r))
        \<and> raised (process_pdfs ad w r) = raised r)"
  by (simp add: process_pdfs_def generate_company_overview_def invoke_chain_def Let_def run_defs
           split: sum.splits)

lemma stage_before_upload_iff:
  "conversation_stage (sess (navigation w (display_chat_history (start s)))) = Initial
   \<longleftrightarrow> (conversation_stage s = Initial \<or> UploadDocuments \<in> clicked w)
       \<and> (processed_pdfs s \<longrightarrow>
             CompanyOverview \<notin> clicked w \<and> AskQuestions \<notin> clicked w \<and> GetProfile \<notin> clicked w)"
proof (cases "processed_pdfs s")
  case True
  then show ?thesis
    by (simp add: navigation_def display_chat_history_def start_def Let_def run_defs)
next
  case False
  then show ?thesis
    by (simp add: navigation_def display_chat_history_def start_def Let_def run_defs)
qed

lemma process_pdfs_assigns:
  assumes "all_chunks (process_pdf ad) (pdf_docs w) = Inr chunks"
    and "get_vectorstore ad chunks = Inr v"
    and "get_conversation_chain ad v = Inr c"
    and "call_chain ad c overview_prompt [] = Inr a"
  shows "company_overview (sess (process_pdfs ad w r)) = Some a
     \<and> conversation (sess (process_pdfs ad w r)) = Some c
     \<and> processed_pdfs (sess (process_pdfs ad w r))"
  using assms
  by (simp add: process_pdfs_def generate_company_overview_def invoke_chain_def Let_def run_defs)

lemma overview_assigned_by_processing:
  assumes u: "(conversation_stage s = Initial \<or> UploadDocuments \<in> clicked w)
       \<and> (processed_pdfs s \<longrightarrow>
             CompanyOverview \<notin> clicked w \<and> AskQuestions \<notin> clicked w \<and> GetProfile \<notin> clicked w)"
    and b: "ProcessPDFs \<in> clicked w" "pdf_docs w \<noteq> []"
    and ok: "all_chunks (process_pdf ad) (pdf_docs w) = Inr chunks"
      "get_vectorstore ad chunks = Inr v"
      "get_conversation_chain ad v = Inr c"
      "call_chain ad c overview_prompt [] = Inr a"
  shows "company_overview (sess (main ad w s)) = Some a
     \<and> conversation (sess (main ad w s)) = Some c
     \<and> processed_pdfs (sess (main ad w s))"
proof -
  define r1 where "r1 = navigation w (display_chat_history (start s))"
  have st: "conversation_stage (sess r1) = Initial"
    unfolding r1_def stage_before_upload_iff by (rule u)
  have "initial_stage ad w r1 = process_pdfs ad w (emit (Header Initial) r1)"
    using st b by (simp add: initial_stage_def Let_def)
  with process_pdfs_assigns [OF ok, of "emit (Header Initial) r1"]
  have "company_overview (sess (initial_stage ad w r1)) = Some a
     \<and> conversation (sess (initial_stage ad w r1)) = Some c
     \<and> processed_pdfs (sess (initial_stage ad w r1))"
    by simp
  with kept_after_upload [of ad w s] show ?thesis
    by (simp add: r1_def)
qed

lemma overview_changed_only_by_processing:
  assumes "company_overview (sess (main ad w s)) \<noteq> company_overview s"
  shows "(conversation_stage s = Initial \<or> UploadDocuments \<in> clicked w)
     \<and> (processed_pdfs s \<longrightarrow>
           CompanyOverview \<notin> clicked w \<and> AskQuestions \<notin> clicked w \<and> GetProfile \<notin> clicked w)
     \<and> ProcessPDFs \<in> clicked w \<and> pdf_docs w \<noteq> []
     \<and> (\<exists>chunks v c a.
          all_chunks (process_pdf ad) (pdf_docs w) = Inr chunks
          \<and> get_vectorstore ad chunks = Inr v
          \<and> get_conversation_chain ad v = Inr c
          \<and> call_chain ad c overview_prompt [] = Inr a
          \<and> company_overview (sess (main ad w s)) = Some a
          \<and> conversation (sess (main ad w s)) = Some c
          \<and> processed_pdfs (sess (main ad w s)))"
proof -
  define r1 where "r1 = navigation w (display_chat_history (start s))"
  define r2 where "r2 = initial_stage ad w r1"
  have k: "company_overview (sess (main ad w s)) = company_overview (sess r2)"
    "conversation (sess (main ad w s)) = conversation (sess r2)"
    "processed_pdfs (sess (main ad w s)) = processed_pdfs (sess r2)"
    using kept_after_upload [of ad w s] by (simp_all add: r1_def r2_def)
  have o1: "company_overview (sess r1) = company_overview s"
    unfolding r1_def by (rule overview_before_upload)
  from assms k(1) o1 have ch: "company_overview (sess r2) \<noteq> company_overview (sess r1)"
    by simp
  have go: "conversation_stage (sess r1) = Initial \<and> ProcessPDFs \<in> clicked w \<and> pdf_docs w \<noteq> []"
  proof (rule ccontr)
    assume "\<not> ?thesis"
    then have "company_overview (sess r2) = company_overview (sess r1)"
      by (auto simp add: r2_def initial_stage_def Let_def emit_def)
    with ch show False by simp
  qed
  then have r2: "r2 = process_pdfs ad w (emit (Header Initial) r1)"
    by (simp add: r2_def initial_stage_def Let_def)
  have e: "company_overview (sess (emit (Header Initial) r1)) = company_overview (sess r1)"
    by (simp add: emit_def)
  from go have u: "(conversation_stage s = Initial \<or> UploadDocuments \<in> clicked w)
     \<and> (processed_pdfs s \<longrightarrow>
           CompanyOverview \<notin> clicked w \<and> AskQuestions \<notin> clicked w \<and> GetProfile \<notin> clicked w)"
    unfolding r1_def stage_before_upload_iff by blast
  from process_pdfs_overview [of ad w "emit (Header Initial) r1"] ch r2 e
  obtain chunks v c a where
    "all_chunks (process_pdf ad) (pdf_docs w) = Inr chunks"
    "get_vectorstore ad chunks = Inr v" "get_conversation_chain ad v = Inr c"
    "call_chain ad c overview_prompt [] = Inr a"
    "company_overview (sess r2) = Some a" "conversation (sess r2) = Some c"
    "processed_pdfs (sess r2)"
    by auto
  then have "\<exists>chunks v c a.
          all_chunks (process_pdf ad) (pdf_docs w) = Inr chunks
          \<and> get_vectorstore ad chunks = Inr v
          \<and> get_conversation_chain ad v = Inr c
          \<and> call_chain ad c overview_prompt [] = Inr a
          \<and> company_overview (sess (main ad w s)) = Some a
          \<and> conversation (sess (main ad w s)) = Some c
          \<and> processed_pdfs (sess (main ad w s))"
    unfolding k by blast
  with u go show ?thesis
    by blast
qed

text \<open>
  C9, as the claim states it, fails: the upload page can be visited again through the
  upload button, and processing documents there assigns the overview again. In the three
  runs of \<open>upload_twice\<close> the overview is first the text of the first file and then the
  text of the second.
\<close>

theorem overview_assigned_twice:
  "company_overview (replay (take 1 upload_twice) session_defaults) = Some ''Acme''
   \<and> company_overview (replay (take 2 upload_twice) session_defaults) = Some ''Acme''
   \<and> company_overview (replay upload_twice session_defaults) = Some ''Bolt''"
  by (simp add: upload_twice_def page_defs run_defs Let_def stub_defs process_pdfs_def
                generate_company_overview_def invoke_chain_def render_overview_def)

text \<open>
  C9, amended. Say that a run processes documents when the upload page is showing (the
  stage before the run is \<open>Initial\<close> or the upload button is clicked, and, once documents
  have been processed, none of the other three navigation buttons is clicked), the process
  button is clicked, at least one file is uploaded, and chunking, indexing, building the
  chain and the overview question all succeed. Every run that processes documents assigns
  the overview: after it the overview is the answer to the overview question, the chain
  is the one just built and the processed flag is set, whatever the overview was before.
  Every run that changes the overview processes documents; any other run leaves the
  overview as it is.
\<close>

theorem overview_assigned_only_by_processing:
  "((conversation_stage s = Initial \<or> UploadDocuments \<in> clicked w)
      \<and> (processed_pdfs s \<longrightarrow>
            CompanyOverview \<notin> clicked w \<and> AskQuestions \<notin> clicked w \<and> GetProfile \<notin> clicked w)
      \<and> ProcessPDFs \<in> clicked w \<and> pdf_docs w \<noteq> []
      \<and> all_chunks (process_pdf ad) (pdf_docs w) = Inr chunks
      \<and> get_vectorstore ad chunks = Inr v
      \<and> get_conversation_chain ad v = Inr c
      \<and> call_chain ad c overview_prompt [] = Inr a
    \<longrightarrow> company_overview (sess (main ad w s)) = Some a
        \<and> conversation (sess (main ad w s)) = Some c
        \<and> processed_pdfs (sess (main ad w s)))
   \<and> (company_overview (sess (main ad w s)) \<noteq> company_overview s
    \<longrightarrow> (conversation_stage s = Initial \<or> UploadDocuments \<in> clicked w)
        \<and> (processed_pdfs s \<longrightarrow>
              CompanyOverview \<notin> clicked w \<and> AskQuestions \<notin> clicked w \<and> GetProfile \<notin> clicked w)
        \<and> ProcessPDFs \<in> clicked w \<and> pdf_docs w \<noteq> []
        \<and> (\<exists>chunks v c a.
             all_chunks (process_pdf ad) (pdf_docs w) = Inr chunks
             \<and> get_vectorstore ad chunks = Inr v
             \<and> get_conversation_chain ad v = Inr c
             \<and> call_chain ad c overview_prompt [] = Inr a
             \<and> company_overview (sess (main ad w s)) = Some a
             \<and> conversation (sess (main ad w s)) = Some c
             \<and> processed_pdfs (sess (main ad w s))))"
proof (intro conjI impI)
  assume a: "(conversation_stage s = Initial \<or> UploadDocuments \<in> clicked w)
      \<and> (processed_pdfs s \<longrightarrow>
            CompanyOverview \<notin> clicked w \<and> AskQuestions \<notin> clicked w \<and> GetProfile \<notin> clicked w)
      \<and> ProcessPDFs \<in> clicked w \<and> pdf_docs w \<noteq> []
      \<and> all_chunks (process_pdf ad) (pdf_docs w) = Inr chunks
      \<and> get_vectorstore ad chunks = Inr v
      \<and> get_conversation_chain ad v = Inr c
      \<and> call_chain ad c overview_prompt [] = Inr a"
  then have u: "(conversation_stage s = Initial \<or> UploadDocuments \<in> clicked w)
      \<and> (processed_pdfs s \<longrightarrow>
            CompanyOverview \<notin> clicked w \<and> AskQuestions \<notin> clicked w \<and> GetProfile \<notin> clicked w)"
    by blast
  from a have rest: "ProcessPDFs \<in> clicked w" "pdf_docs w \<noteq> []"
    "all_chunks (process_pdf ad) (pdf_docs w) = Inr chunks"
    "get_vectorstore ad chunks = Inr v"
    "get_conversation_chain ad v = Inr c"
    "call_chain ad c overview_prompt [] = Inr a"
    by blast+
  note r = overview_assigned_by_processing [OF u rest]
  from r show "company_overview (sess (main ad w s)) = Some a" by blast
  from r show "conversation (sess (main ad w s)) = Some c" by blast
  from r show "processed_pdfs (sess (main ad w s))" by blast
next
  assume a: "company_overview (sess (main ad w s)) \<noteq> company_overview s"
  note r = overview_changed_only_by_processing [OF a]
  from r show "conversation_stage s = Initial \<or> UploadDocuments \<in> clicked w" by blast
  from r show "ProcessPDFs \<in> clicked w" by blast
  from r show "pdf_docs w \<noteq> []" by blast
  from r show "\<exists>chunks v c a.
             all_chunks (process_pdf ad) (pdf_docs w) = Inr chunks
             \<and> get_vectorstore ad chunks = Inr v
             \<and> get_conversation_chain ad v = Inr c
             \<and> call_chain ad c overview_prompt [] = Inr a
             \<and> company_overview (sess (main ad w s)) = Some a
             \<and> conversation (sess (main ad w s)) = Some c
             \<and> processed_pdfs (sess (main ad w s))" by blast
  {
    assume "processed_pdfs s"
    with r show "CompanyOverview \<notin> clicked w" by blast
  }
  {
    assume "processed_pdfs s"
    with r show "AskQuestions \<notin> clicked w" by blast
  }
  {
    assume "processed_pdfs s"
    with r show "GetProfile \<notin> clicked w" by blast
  }
qed

theorem overview_assigned_only_by_processing_witness:
  "company_overview
     (sess (main stub_processor (untouched\<lparr>clicked := {ProcessPDFs}, pdf_docs := [''Acme'']\<rparr>)
              session_defaults)) = Some ''Acme''
   \<and> company_overview
     (sess (main stub_processor (untouched\<lparr>clicked := {ProcessPDFs}, pdf_docs := [''Acme'']\<rparr>)
              session_defaults)) \<noteq> company_overview (session_defaults :: string session)
   \<and> ProcessPDFs \<in> clicked (untouched\<lparr>clicked := {ProcessPDFs}, pdf_docs := [''Acme'']\<rparr>)"
proof -
  let ?w = "untouched\<lparr>clicked := {ProcessPDFs}, pdf_docs := [''Acme'']\<rparr>"
  let ?s = "session_defaults :: string session"
  have h: "(conversation_stage ?s = Initial \<or> UploadDocuments \<in> clicked ?w)
      \<and> (processed_pdfs ?s \<longrightarrow>
            CompanyOverview \<notin> clicked ?w \<and> AskQuestions \<notin> clicked ?w \<and> GetProfile \<notin> clicked ?w)
      \<and> ProcessPDFs \<in> clicked ?w \<and> pdf_docs ?w \<noteq> []
      \<and> all_chunks (process_pdf stub_processor) (pdf_docs ?w) = Inr [''Acme'']
      \<and> get_vectorstore stub_processor [''Acme''] = Inr ''Acme''
      \<and> get_conversation_chain stub_processor ''Acme'' = Inr ''Acme''
      \<and> call_chain stub_processor ''Acme'' overview_prompt [] = Inr ''Acme''"
    by (simp add: stub_defs)
  note t = overview_assigned_only_by_processing
             [of ?s ?w stub_processor "[''Acme'']" "''Acme''" "''Acme''" "''Acme''"]
  from t h have o: "company_overview (sess (main stub_processor ?w ?s)) = Some ''Acme''"
    by blast
  then have d: "company_overview (sess (main stub_processor ?w ?s)) \<noteq> company_overview ?s"
    by (simp add: session_defaults_def)
  from t d have "ProcessPDFs \<in> clicked ?w"
    by blast
  with o d show ?thesis
    by blast
qed

section \<open>What the validator accepts\<close>

lemma match_items_Cons_iff:
  "x \<in> set (match_items w (i # is) [r])
   \<longleftrightarrow> (\<exists>m. m \<in> set (match_item w i r) \<and> x \<in> set (match_items w is [m]))"
proof -
  have u: "x \<in> set (match_items w js rests)
           \<longleftrightarrow> (\<exists>m. m \<in> set rests \<and> x \<in> set (match_items w js [m]))" for js rests
  proof (induction js arbitrary: rests)
    case Nil
    show ?case by simp
  next
    case (Cons j js)
    have a: "x \<in> set (match_items w (j # js) rests)
             \<longleftrightarrow> (\<exists>m. m \<in> set (concat (map (match_item w j) rests))
                       \<and> x \<in> set (match_items w js [m]))"
      using Cons.IH [of "concat (map (match_item w j) rests)"]
      by (simp only: match_items.simps)
    have b: "x \<in> set (match_items w (j # js) [r])
             \<longleftrightarrow> (\<exists>m. m \<in> set (match_item w j r) \<and> x \<in> set (match_items w js [m]))" for r
      using Cons.IH [of "match_item w j r"]
      by (simp only: match_items.simps list.map concat.simps append_Nil2)
    have c: "m \<in> set (concat (map (match_item w j) rests))
             \<longleftrightarrow> (\<exists>r. r \<in> set rests \<and> m \<in> set (match_item w j r))" for m
      by auto
    show ?case
      unfolding a b c by blast
  qed
  have "match_items w (i # is) [r] = match_items w is (match_item w i r)"
    by simp
  then show ?thesis
    using u [of "is" "match_item w i r"] by (simp only:)
qed

lemma match_items_Nil_iff: "x \<in> set (match_items w [] [r]) \<longleftrightarrow> x = r"
  by simp

lemma match_Bol_iff: "m \<in> set (match_item w Bol r) \<longleftrightarrow> m = r \<and> length r = length w"
  by auto

lemma match_Eol_iff: "m \<in> set (match_item w Eol r) \<longleftrightarrow> m = r \<and> (r = [] \<or> r = [newline])"
  by auto

lemma match_Lit_iff: "m \<in> set (match_item w (Lit c) r) \<longleftrightarrow> r = c # m"
  by (cases r) auto

lemma take_within_takeWhile:
  "k \<le> length (takeWhile P xs) \<Longrightarrow> list_all P (take k xs)"
proof (induction xs arbitrary: k)
  case Nil
  show ?case by simp
next
  case (Cons x xs)
  show ?case
  proof (cases k)
    case 0
    then show ?thesis by simp
  next
    case (Suc j)
    with Cons.prems have px: "P x" and j: "j \<le> length (takeWhile P xs)"
      by (simp_all split: if_splits)
    from Cons.IH [OF j] px Suc show ?thesis by simp
  qed
qed

lemma takeWhile_covers_prefix:
  "list_all P pre \<Longrightarrow> length pre \<le> length (takeWhile P (pre @ m))"
  by (induction pre) simp_all

lemma match_Rep_iff:
  "m \<in> set (match_item w (Rep n ks) r)
   \<longleftrightarrow> (\<exists>pre. r = pre @ m \<and> n \<le> length pre \<and> list_all (in_class ks) pre)"
proof
  assume "m \<in> set (match_item w (Rep n ks) r)"
  then have "m \<in> (\<lambda>k. drop k r) ` {n ..< Suc (length (takeWhile (in_class ks) r))}"
    by (simp only: match_item.simps set_map set_upt)
  then obtain k where m: "m = drop k r"
    and "k \<in> {n ..< Suc (length (takeWhile (in_class ks) r))}"
    by (rule imageE)
  then have k: "n \<le> k" "k \<le> length (takeWhile (in_class ks) r)"
    by (simp_all only: atLeastLessThan_iff less_Suc_eq_le)
  have "list_all (in_class ks) (take k r)"
    using k(2) by (rule take_within_takeWhile)
  moreover have "r = take k r @ m"
    by (simp add: m)
  moreover have "length (takeWhile (in_class ks) r) \<le> length r"
    by (rule length_takeWhile_le)
  then have "n \<le> length (take k r)"
    using k by simp
  ultimately show "\<exists>pre. r = pre @ m \<and> n \<le> length pre \<and> list_all (in_class ks) pre"
    by blast
next
  assume "\<exists>pre. r = pre @ m \<and> n \<le> length pre \<and> list_all (in_class ks) pre"
  then obtain pre where r: "r = pre @ m" and n: "n \<le> length pre"
    and p: "list_all (in_class ks) pre"
    by blast
  have "length pre \<le> length (takeWhile (in_class ks) r)"
    unfolding r using p by (rule takeWhile_covers_prefix)
  with n have "length pre \<in> {n ..< Suc (length (takeWhile (in_class ks) r))}"
    by simp
  then have "drop (length pre) r \<in> (\<lambda>k. drop k r) ` {n ..< Suc (length (takeWhile (in_class ks) r))}"
    by (rule imageI)
  moreover have "drop (length pre) r = m"
    by (simp add: r)
  ultimately show "m \<in> set (match_item w (Rep n ks) r)"
    by (simp only: match_item.simps set_map set_upt)
qed

lemma match_Bol_I:
  "length r = length w \<Longrightarrow> x \<in> set (match_items w is [r])
   \<Longrightarrow> x \<in> set (match_items w (Bol # is) [r])"
  unfolding match_items_Cons_iff match_Bol_iff by blast

lemma match_Eol_I:
  "r = [] \<or> r = [newline] \<Longrightarrow> x \<in> set (match_items w is [r])
   \<Longrightarrow> x \<in> set (match_items w (Eol # is) [r])"
  unfolding match_items_Cons_iff match_Eol_iff by blast

lemma match_Lit_I:
  "x \<in> set (match_items w is [m]) \<Longrightarrow> x \<in> set (match_items w (Lit c # is) (([c] @ m) # []))"
  unfolding match_items_Cons_iff match_Lit_iff by simp

lemma match_Rep_I:
  "n \<le> length pre \<Longrightarrow> list_all (in_class ks) pre \<Longrightarrow> x \<in> set (match_items w is [m])
   \<Longrightarrow> x \<in> set (match_items w (Rep n ks # is) [pre @ m])"
  unfolding match_items_Cons_iff match_Rep_iff by blast

text \<open>
  What \<open>validate_email\<close> accepts, for every string: a local part, an \<open>@\<close>, a domain, a
  dot, and a top-level domain, and after them nothing or one newline.
\<close>

lemma validate_email_parts:
  "validate_email s \<longleftrightarrow>
     (\<exists>l d t e. s = l @ ''@'' @ d @ ''.'' @ t @ e
        \<and> l \<noteq> [] \<and> list_all (in_class local_part_class) l
        \<and> d \<noteq> [] \<and> list_all (in_class domain_class) d
        \<and> 2 \<le> length t \<and> list_all (in_class tld_class) t
        \<and> (e = [] \<or> e = [newline]))"
proof
  assume "validate_email s"
  then obtain x where "x \<in> set (match_items s email_regex [s])"
    by (cases "match_items s email_regex [s]") (auto simp add: validate_email_def re_match_def)
  then obtain l m1 where l: "s = l @ m1" "1 \<le> length l" "list_all (in_class local_part_class) l"
    and x1: "x \<in> set (match_items s
               [Lit CHR ''@'', Rep 1 domain_class, Lit CHR ''.'', Rep 2 tld_class, Eol] [m1])"
    unfolding email_regex_def match_items_Cons_iff [of x s Bol]
      match_items_Cons_iff [of x s "Rep 1 local_part_class"] match_Bol_iff match_Rep_iff
    by blast
  from x1 obtain m2 where m1: "m1 = CHR ''@'' # m2"
    and x2: "x \<in> set (match_items s [Rep 1 domain_class, Lit CHR ''.'', Rep 2 tld_class, Eol] [m2])"
    unfolding match_items_Cons_iff [of x s "Lit CHR ''@''"] match_Lit_iff
    by blast
  from x2 obtain d m3 where d: "m2 = d @ m3" "1 \<le> length d" "list_all (in_class domain_class) d"
    and x3: "x \<in> set (match_items s [Lit CHR ''.'', Rep 2 tld_class, Eol] [m3])"
    unfolding match_items_Cons_iff [of x s "Rep 1 domain_class"] match_Rep_iff
    by blast
  from x3 obtain m4 where m3: "m3 = CHR ''.'' # m4"
    and x4: "x \<in> set (match_items s [Rep 2 tld_class, Eol] [m4])"
    unfolding match_items_Cons_iff [of x s "Lit CHR ''.''"] match_Lit_iff
    by blast
  from x4 obtain t m5 where t: "m4 = t @ m5" "2 \<le> length t" "list_all (in_class tld_class) t"
    and x5: "x \<in> set (match_items s [Eol] [m5])"
    unfolding match_items_Cons_iff [of x s "Rep 2 tld_class"] match_Rep_iff
    by blast
  from x5 have e: "m5 = [] \<or> m5 = [newline]"
    unfolding match_items_Cons_iff [of x s Eol] match_Eol_iff
    by blast
  have "s = l @ ''@'' @ d @ ''.'' @ t @ m5"
    by (simp add: l(1) m1 d(1) m3 t(1))
  moreover have "l \<noteq> []" "d \<noteq> []"
    using l(2) d(2) by auto
  ultimately show "\<exists>l d t e. s = l @ ''@'' @ d @ ''.'' @ t @ e
        \<and> l \<noteq> [] \<and> list_all (in_class local_part_class) l
        \<and> d \<noteq> [] \<and> list_all (in_class domain_class) d
        \<and> 2 \<le> length t \<and> list_all (in_class tld_class) t
        \<and> (e = [] \<or> e = [newline])"
    using l(3) d(3) t(2,3) e by blast
next
  assume "\<exists>l d t e. s = l @ ''@'' @ d @ ''.'' @ t @ e
        \<and> l \<noteq> [] \<and> list_all (in_class local_part_class) l
        \<and> d \<noteq> [] \<and> list_all (in_class domain_class) d
        \<and> 2 \<le> length t \<and> list_all (in_class tld_class) t
        \<and> (e = [] \<or> e = [newline])"
  then obtain l d t e where s: "s = l @ ''@'' @ d @ ''.'' @ t @ e"
    and l: "l \<noteq> []" "list_all (in_class local_part_class) l"
    and d: "d \<noteq> []" "list_all (in_class domain_class) d"
    and t: "2 \<le> length t" "list_all (in_class tld_class) t"
    and e: "e = [] \<or> e = [newline]"
    by blast
  have l1: "1 \<le> length l" and d1: "1 \<le> length d"
    using l(1) d(1) by (simp_all add: Suc_le_eq)
  have "e \<in> set (match_items s [] [e])"
    by simp
  then have "e \<in> set (match_items s [Eol] [e])"
    by (rule match_Eol_I [OF e])
  then have "e \<in> set (match_items s [Rep 2 tld_class, Eol] [t @ e])"
    by (rule match_Rep_I [OF t])
  then have "e \<in> set (match_items s [Lit CHR ''.'', Rep 2 tld_class, Eol] [''.'' @ t @ e])"
    by (rule match_Lit_I)
  then have "e \<in> set (match_items s [Rep 1 domain_class, Lit CHR ''.'', Rep 2 tld_class, Eol]
                        [d @ ''.'' @ t @ e])"
    by (rule match_Rep_I [OF d1 d(2)])
  then have "e \<in> set (match_items s
                 [Lit CHR ''@'', Rep 1 domain_class, Lit CHR ''.'', Rep 2 tld_class, Eol]
                 [''@'' @ d @ ''.'' @ t @ e])"
    by (rule match_Lit_I)
  then have "e \<in> set (match_items s
                 [Rep 1 local_part_class, Lit CHR ''@'', Rep 1 domain_class, Lit CHR ''.'',
                  Rep 2 tld_class, Eol]
                 [l @ ''@'' @ d @ ''.'' @ t @ e])"
    by (rule match_Rep_I [OF l1 l(2)])
  then have "e \<in> set (match_items s email_regex [s])"
    unfolding email_regex_def s by (rule match_Bol_I [OF refl])
  then show "validate_email s"
    by (auto simp add: validate_email_def re_match_def)
qed

text \<open>A string of the shape the specification gives ends in a letter.\<close>

lemma email_shape_last:
  assumes "email_shape s"
  shows "s \<noteq> [] \<and> in_class tld_class (last s)"
proof -
  from assms obtain l d t where s: "s = l @ ''@'' @ d @ ''.'' @ t"
    and t: "2 \<le> length t" "list_all (in_class tld_class) t"
    unfolding email_shape_def by blast
  from t(1) have ne: "t \<noteq> []" by auto
  then have "last s = last t" by (simp add: s)
  moreover from ne t(2) have "in_class tld_class (last t)"
    by (simp add: list_all_iff)
  ultimately show ?thesis by (simp add: s)
qed

lemma newline_not_letter: "\<not> in_class tld_class newline"
  by (simp add: tld_class_def in_class_def in_cls_def newline_def)

text \<open>
  The validator against the specification's pattern: it accepts the strings of that
  shape, and besides them exactly the strings of that shape followed by one newline.
\<close>

lemma validate_email_iff:
  "validate_email s \<longleftrightarrow> email_shape s \<or> (\<exists>u. s = u @ [newline] \<and> email_shape u)"
proof
  assume "validate_email s"
  then obtain l d t e where s: "s = l @ ''@'' @ d @ ''.'' @ t @ e"
    and p: "l \<noteq> []" "list_all (in_class local_part_class) l"
      "d \<noteq> []" "list_all (in_class domain_class) d"
      "2 \<le> length t" "list_all (in_class tld_class) t"
    and e: "e = [] \<or> e = [newline]"
    unfolding validate_email_parts by blast
  have sh: "email_shape (l @ ''@'' @ d @ ''.'' @ t)"
    unfolding email_shape_def using p by blast
  from e show "email_shape s \<or> (\<exists>u. s = u @ [newline] \<and> email_shape u)"
  proof
    assume "e = []"
    with sh s show ?thesis by simp
  next
    assume "e = [newline]"
    with s have "s = (l @ ''@'' @ d @ ''.'' @ t) @ [newline]" by simp
    with sh show ?thesis by blast
  qed
next
  assume "email_shape s \<or> (\<exists>u. s = u @ [newline] \<and> email_shape u)"
  then show "validate_email s"
  proof
    assume "email_shape s"
    then obtain l d t where "s = l @ ''@'' @ d @ ''.'' @ t @ []"
      "l \<noteq> []" "list_all (in_class local_part_class) l"
      "d \<noteq> []" "list_all (in_class domain_class) d"
      "2 \<le> length t" "list_all (in_class tld_class) t"
      unfolding email_shape_def by auto
    then show ?thesis
      unfolding validate_email_parts by blast
  next
    assume "\<exists>u. s = u @ [newline] \<and> email_shape u"
    then obtain l d t where "s = l @ ''@'' @ d @ ''.'' @ t @ [newline]"
      "l \<noteq> []" "list_all (in_class local_part_class) l"
      "d \<noteq> []" "list_all (in_class domain_class) d"
      "2 \<le> length t" "list_all (in_class tld_class) t"
      unfolding email_shape_def by auto
    then show ?thesis
      unfolding validate_email_parts by blast
  qed
qed

text \<open>The four addresses of the specification are decided as it says.\<close>

lemma validate_email_examples:
  "validate_email ''user@example.com''"
  "validate_email ''a.b+c@sub.domain.io''"
  "\<not> validate_email ''not-an-email''"
  "\<not> validate_email ''a@b.c''"
  by (simp_all add: regex_defs)

text \<open>
  C3, at a string the pattern of the specification excludes. \<open>user@example.com\<close>
  followed by a newline is not of the shape the specification gives (it does not end in
  a letter), and \<open>validate_email\<close> accepts it: the pattern ends in \<open>$\<close>, which in
  Python also matches just before a newline that ends the string.
\<close>

theorem validate_email_accepts_trailing_newline:
  "validate_email (''user@example.com'' @ [newline])
   \<and> \<not> email_shape (''user@example.com'' @ [newline])"
proof -
  have a: "validate_email (''user@example.com'' @ [newline])"
    by (simp add: regex_defs)
  have "\<not> email_shape (''user@example.com'' @ [newline])"
  proof
    assume "email_shape (''user@example.com'' @ [newline])"
    from email_shape_last [OF this] have "in_class tld_class newline" by simp
    with newline_not_letter show False by simp
  qed
  with a show ?thesis by simp
qed

end
